theory Spec2Isabelle
  imports Main
begin

section \<open>The fixed-capacity vector of \<open>static_vector.h\<close>\<close>

text \<open>
  \<open>ksv::static_vector<T, N>\<close> keeps its elements in an inline byte buffer sized for \<open>N\<close>
  objects of type \<open>T\<close> and counts the live ones in \<open>curr_size\<close>. The embedding follows the
  header member by member.

  \<^item> The storage is addressed by slot: \<open>buffer s i\<close> is what lies at
    \<open>buffer + i * sizeof(T)\<close>, \<open>Some x\<close> for a constructed object \<open>x\<close> and \<open>None\<close> for raw
    storage without an object. The members compute addresses by pointer arithmetic and
    never compare a slot index with \<open>N\<close>, so the slots are indexed by all of \<open>nat\<close>; the
    slots \<open>0 ..< N\<close> are the declared array, a slot \<open>i \<ge> N\<close> is the memory behind it.
  \<^item> \<open>N\<close> is a template parameter. It is an argument of the three members that mention
    it: \<open>capacity\<close>, \<open>validate_curr_size\<close> and \<open>validate_count\<close>.
  \<^item> \<open>size_type\<close> is modelled by \<open>nat\<close>; the one decrement, in \<open>pop_back\<close>, writes out
    the wrap-around of the unsigned counter.
  \<^item> The operations of the element type are arguments: a constructor is a function into
    \<open>error + 'a\<close> (it may throw), the equality of \<open>T\<close> is a function into \<open>bool\<close>.
  \<^item> A member that changes \<open>*this\<close> returns the outcome together with the state of
    \<open>*this\<close> afterwards, so that the state after a throw can be read off. A constructor
    returns \<open>error + 'a static_vector\<close>: when it throws there is no object.
  \<^item> \<open>std::destroy_at\<close> is an effect on the element, so the members that destroy
    elements also return the contents of the destroyed slots, in the order of destruction.
\<close>

subsection \<open>Failures\<close>

text \<open>
  The three exceptions of the header, an exception thrown by a constructor of the element
  type, and the one use of storage that the model tracks as undefined: reading a slot that
  holds no object as a \<open>T\<close>. \<open>Undefined_behaviour\<close> is not an exception; no handler
  catches it.
\<close>

datatype error =
    Out_of_range
  | Length_error
  | Bad_alloc
  | Element_exception
  | Undefined_behaviour

subsection \<open>The instance fields\<close>

record 'a static_vector =
  buffer :: "nat \<Rightarrow> 'a option"
  curr_size :: nat

text \<open>\<open>static_vector() = default\<close>: raw storage and \<open>curr_size{0}\<close>.\<close>

definition static_vector_default :: "'a static_vector" where
  "static_vector_default = \<lparr>buffer = (\<lambda>_. None), curr_size = 0\<rparr>"

subsection \<open>Non-mutating members\<close>

definition empty_sv :: "'a static_vector \<Rightarrow> bool" where
  "empty_sv s = (curr_size s = 0)"

definition size_sv :: "'a static_vector \<Rightarrow> nat" where
  "size_sv s = curr_size s"

definition capacity :: "nat \<Rightarrow> 'a static_vector \<Rightarrow> nat" where
  "capacity N s = N"

subsection \<open>Validation\<close>

definition validate_index :: "'a static_vector \<Rightarrow> nat \<Rightarrow> error + unit" where
  "validate_index s index = (if index \<ge> curr_size s then Inl Out_of_range else Inr ())"

definition validate_curr_size :: "nat \<Rightarrow> 'a static_vector \<Rightarrow> error + unit" where
  "validate_curr_size N s = (if curr_size s > N then Inl Length_error else Inr ())"

definition validate_count :: "nat \<Rightarrow> nat \<Rightarrow> error + unit" where
  "validate_count N count = (if count > N then Inl Bad_alloc else Inr ())"

subsection \<open>Element access and iteration\<close>

text \<open>
  \<open>*cleaned_data_ptr(pos)\<close>: the object in slot \<open>pos\<close>. Used as a \<open>T\<close>, a slot without an
  object is undefined behaviour.
\<close>

definition operator_index :: "'a static_vector \<Rightarrow> nat \<Rightarrow> error + 'a" where
  "operator_index s pos =
     (case buffer s pos of None \<Rightarrow> Inl Undefined_behaviour | Some x \<Rightarrow> Inr x)"

definition at_sv :: "'a static_vector \<Rightarrow> nat \<Rightarrow> error + 'a" where
  "at_sv s pos =
     (case validate_index s pos of
        Inl e \<Rightarrow> Inl e
      | Inr _ \<Rightarrow> operator_index s pos)"

text \<open>
  Walking an iterator from \<open>begin()\<close> to \<open>end()\<close>, that is over the slots
  \<open>0 ..< curr_size\<close>, and reading each element.
\<close>

fun read_slots :: "(nat \<Rightarrow> 'a option) \<Rightarrow> nat list \<Rightarrow> error + 'a list" where
  "read_slots b [] = Inr []"
| "read_slots b (i # is) =
     (case b i of
        None \<Rightarrow> Inl Undefined_behaviour
      | Some x \<Rightarrow> (case read_slots b is of Inl e \<Rightarrow> Inl e | Inr xs \<Rightarrow> Inr (x # xs)))"

definition traverse :: "'a static_vector \<Rightarrow> error + 'a list" where
  "traverse s = read_slots (buffer s) [0 ..< curr_size s]"

subsection \<open>Appending\<close>

text \<open>
  \<open>pb_internal\<close>, \<open>mb_internal\<close> and \<open>eb_internal\<close> construct a \<open>T\<close> in slot
  \<open>curr_size\<close> by placement new and then increment \<open>curr_size\<close>. When the constructor of
  \<open>T\<close> throws, nothing was constructed and the increment is not reached.
\<close>

definition pb_internal ::
  "('a \<Rightarrow> error + 'a) \<Rightarrow> 'a \<Rightarrow> 'a static_vector \<Rightarrow> (error + unit) \<times> 'a static_vector" where
  "pb_internal copy_T v s =
     (case copy_T v of
        Inl e \<Rightarrow> (Inl e, s)
      | Inr x \<Rightarrow> (Inr (), s\<lparr>buffer := (buffer s)(curr_size s := Some x),
                             curr_size := curr_size s + 1\<rparr>))"

definition mb_internal ::
  "('a \<Rightarrow> error + 'a) \<Rightarrow> 'a \<Rightarrow> 'a static_vector \<Rightarrow> (error + unit) \<times> 'a static_vector" where
  "mb_internal move_T v s =
     (case move_T v of
        Inl e \<Rightarrow> (Inl e, s)
      | Inr x \<Rightarrow> (Inr (), s\<lparr>buffer := (buffer s)(curr_size s := Some x),
                             curr_size := curr_size s + 1\<rparr>))"

definition eb_internal ::
  "('b \<Rightarrow> error + 'a) \<Rightarrow> 'b \<Rightarrow> 'a static_vector \<Rightarrow> (error + unit) \<times> 'a static_vector" where
  "eb_internal ctor_T args s =
     (case ctor_T args of
        Inl e \<Rightarrow> (Inl e, s)
      | Inr x \<Rightarrow> (Inr (), s\<lparr>buffer := (buffer s)(curr_size s := Some x),
                             curr_size := curr_size s + 1\<rparr>))"

definition push_back ::
  "nat \<Rightarrow> ('a \<Rightarrow> error + 'a) \<Rightarrow> 'a \<Rightarrow> 'a static_vector \<Rightarrow> (error + unit) \<times> 'a static_vector" where
  "push_back N copy_T v s =
     (case validate_curr_size N s of
        Inl e \<Rightarrow> (Inl e, s)
      | Inr _ \<Rightarrow> pb_internal copy_T v s)"

definition push_back_move ::
  "nat \<Rightarrow> ('a \<Rightarrow> error + 'a) \<Rightarrow> 'a \<Rightarrow> 'a static_vector \<Rightarrow> (error + unit) \<times> 'a static_vector" where
  "push_back_move N move_T v s =
     (case validate_curr_size N s of
        Inl e \<Rightarrow> (Inl e, s)
      | Inr _ \<Rightarrow> mb_internal move_T v s)"

definition emplace_back ::
  "nat \<Rightarrow> ('b \<Rightarrow> error + 'a) \<Rightarrow> 'b \<Rightarrow> 'a static_vector \<Rightarrow> (error + unit) \<times> 'a static_vector" where
  "emplace_back N ctor_T args s =
     (case validate_curr_size N s of
        Inl e \<Rightarrow> (Inl e, s)
      | Inr _ \<Rightarrow> eb_internal ctor_T args s)"

subsection \<open>Removal\<close>

text \<open>
  \<open>std::destroy_at\<close> on one slot: the slot holds no object afterwards, and what it held is
  appended to the record of destroyed slots.
\<close>

definition destroy_at ::
  "nat \<Rightarrow> (nat \<Rightarrow> 'a option) \<times> 'a option list \<Rightarrow> (nat \<Rightarrow> 'a option) \<times> 'a option list" where
  "destroy_at i bl = ((fst bl)(i := None), snd bl @ [fst bl i])"

text \<open>
  \<open>clear_elements\<close>: for \<open>i = 0, ..., curr_size - 1\<close> destroy slot \<open>curr_size - 1 - i\<close>,
  then set \<open>curr_size\<close> to 0. It is the body of \<open>clear\<close> and of the destructor.
\<close>

definition clear_elements :: "'a static_vector \<Rightarrow> 'a option list \<times> 'a static_vector" where
  "clear_elements s =
     (let bl = fold destroy_at (map (\<lambda>i. curr_size s - 1 - i) [0 ..< curr_size s])
                 (buffer s, [])
      in (snd bl, s\<lparr>buffer := fst bl, curr_size := 0\<rparr>))"

definition clear :: "'a static_vector \<Rightarrow> 'a option list \<times> 'a static_vector" where
  "clear s = clear_elements s"

text \<open>
  \<open>pop_back\<close> decrements the unsigned counter without a check; on an empty container it
  wraps to the largest \<open>size_t\<close> (64 bits here).
\<close>

definition pop_back :: "'a static_vector \<Rightarrow> 'a option list \<times> 'a static_vector" where
  "pop_back s =
     (let n = (if curr_size s = 0 then 2 ^ 64 - 1 else curr_size s - 1);
          bl = destroy_at n (buffer s, [])
      in (snd bl, s\<lparr>buffer := fst bl, curr_size := n\<rparr>))"

subsection \<open>Swap\<close>

text \<open>
  \<open>std::swap_ranges(begin(), end(), other.begin())\<close> exchanges, for every slot below
  \<open>curr_size\<close> of \<open>*this\<close>, the contents of that slot of \<open>*this\<close> and of \<open>other\<close>; then the
  two counters are exchanged. The model exchanges what the two slots hold also where a
  slot of \<open>other\<close> holds no object (the header itself moves a container by swapping it
  into raw storage). The two arguments are two objects: \<open>&other \<noteq> this\<close>.
  The result is the pair (\<open>*this\<close>, \<open>other\<close>) afterwards.
\<close>

definition iter_swap ::
  "nat \<Rightarrow> (nat \<Rightarrow> 'a option) \<times> (nat \<Rightarrow> 'a option) \<Rightarrow> (nat \<Rightarrow> 'a option) \<times> (nat \<Rightarrow> 'a option)" where
  "iter_swap i bb = ((fst bb)(i := snd bb i), (snd bb)(i := fst bb i))"

definition swap_ranges ::
  "nat list \<Rightarrow> (nat \<Rightarrow> 'a option) \<times> (nat \<Rightarrow> 'a option) \<Rightarrow> (nat \<Rightarrow> 'a option) \<times> (nat \<Rightarrow> 'a option)" where
  "swap_ranges is bb = fold iter_swap is bb"

definition swap :: "'a static_vector \<Rightarrow> 'a static_vector \<Rightarrow> 'a static_vector \<times> 'a static_vector" where
  "swap this other =
     (let bb = swap_ranges [0 ..< curr_size this] (buffer this, buffer other)
      in (this\<lparr>buffer := fst bb, curr_size := curr_size other\<rparr>,
          other\<lparr>buffer := snd bb, curr_size := curr_size this\<rparr>))"

text \<open>The friend \<open>swap(lhs, rhs)\<close> is \<open>lhs.swap(rhs)\<close>.\<close>

definition swap_friend ::
  "'a static_vector \<Rightarrow> 'a static_vector \<Rightarrow> 'a static_vector \<times> 'a static_vector" where
  "swap_friend lhs rhs = swap lhs rhs"

subsection \<open>Constructors\<close>

text \<open>
  The range constructor is a template over the iterator type. Two kinds of iterator are
  modelled. \<open>Forward ys\<close> is a multi-pass iterator (a pointer, a container iterator)
  standing before the elements \<open>ys\<close>; its copies are independent and the past-the-end
  iterator is \<open>Forward []\<close>. \<open>Input c\<close> is a single-pass \<open>std::istream_iterator\<close> holding
  the element \<open>c\<close> it has read; the end-of-stream iterator is \<open>Input None\<close>. All copies of
  an \<open>Input\<close> iterator read from one stream, whose unread elements are passed along as a
  list: incrementing any copy takes the next element from it.
\<close>

datatype 'a iter = Forward "'a list" | Input "'a option"

text \<open>\<open>iter == end\<close>, \<open>*iter\<close> and \<open>++iter\<close>.\<close>

definition is_end :: "'a iter \<Rightarrow> bool" where
  "is_end it = (case it of Forward ys \<Rightarrow> ys = [] | Input c \<Rightarrow> c = None)"

definition deref :: "'a iter \<Rightarrow> error + 'a" where
  "deref it =
     (case it of
        Forward [] \<Rightarrow> Inl Undefined_behaviour
      | Forward (y # ys) \<Rightarrow> Inr y
      | Input None \<Rightarrow> Inl Undefined_behaviour
      | Input (Some c) \<Rightarrow> Inr c)"

definition incr :: "'a iter \<Rightarrow> 'a list \<Rightarrow> 'a iter \<times> 'a list" where
  "incr it stream =
     (case it of
        Forward ys \<Rightarrow> (Forward (tl ys), stream)
      | Input c \<Rightarrow>
          (case stream of
             [] \<Rightarrow> (Input None, [])
           | z # zs \<Rightarrow> (Input (Some z), zs)))"

text \<open>
  \<open>std::istream_iterator<T>(in)\<close> on a stream that holds \<open>xs\<close>: the constructor reads the
  first element. The result is the iterator and the unread rest of the stream.
\<close>

definition istream_begin :: "'a list \<Rightarrow> 'a iter \<times> 'a list" where
  "istream_begin xs = (case xs of [] \<Rightarrow> (Input None, []) | x # r \<Rightarrow> (Input (Some x), r))"

text \<open>The number of increments that take an iterator to the end (for termination).\<close>

definition remaining :: "'a iter \<Rightarrow> 'a list \<Rightarrow> nat" where
  "remaining it stream =
     (case it of
        Forward ys \<Rightarrow> length ys
      | Input None \<Rightarrow> 0
      | Input (Some c) \<Rightarrow> Suc (length stream))"

text \<open>
  \<open>std::distance(first, last)\<close> counts the increments from a copy of \<open>first\<close> to \<open>last\<close>.
  The result is the count and the stream afterwards; the caller's \<open>first\<close> is a copy of
  its own and is not changed.
\<close>

function distance_loop :: "'a iter \<Rightarrow> 'a list \<Rightarrow> nat \<Rightarrow> nat \<times> 'a list" where
  "distance_loop it stream n =
     (if is_end it then (n, stream)
      else distance_loop (fst (incr it stream)) (snd (incr it stream)) (Suc n))"
  by pat_completeness auto
termination
  by (relation "measure (\<lambda>(it, stream, n). remaining it stream)")
     (auto simp: is_end_def incr_def remaining_def split: iter.splits list.splits option.splits)

definition distance :: "'a iter \<Rightarrow> 'a list \<Rightarrow> nat \<times> 'a list" where
  "distance first stream = distance_loop first stream 0"

text \<open>
  The loop \<open>for (auto iter{begin}; iter != end; ++iter) pb_internal(*iter)\<close>. A throw
  leaves the loop.
\<close>

function range_loop ::
  "('a \<Rightarrow> error + 'a) \<Rightarrow> 'a iter \<Rightarrow> 'a list \<Rightarrow> 'a static_vector
     \<Rightarrow> (error + unit) \<times> 'a static_vector" where
  "range_loop copy_T it stream s =
     (if is_end it then (Inr (), s)
      else
        (case deref it of
           Inl e \<Rightarrow> (Inl e, s)
         | Inr v \<Rightarrow>
             (case pb_internal copy_T v s of
                (Inl e, s') \<Rightarrow> (Inl e, s')
              | (Inr _, s') \<Rightarrow>
                  range_loop copy_T (fst (incr it stream)) (snd (incr it stream)) s')))"
  by pat_completeness auto
termination
  by (relation "measure (\<lambda>(copy_T, it, stream, s). remaining it stream)")
     (auto simp: is_end_def incr_def remaining_def split: iter.splits list.splits option.splits)

text \<open>
  \<open>static_vector(Iter begin, Iter end)\<close>: \<open>validate_count(std::distance(begin, end))\<close>, then
  the loop from \<open>begin\<close>, on the stream as \<open>std::distance\<close> left it.
\<close>

definition static_vector_range ::
  "nat \<Rightarrow> ('a \<Rightarrow> error + 'a) \<Rightarrow> 'a iter \<Rightarrow> 'a list \<Rightarrow> error + 'a static_vector" where
  "static_vector_range N copy_T begin stream =
     (case validate_count N (fst (distance begin stream)) of
        Inl e \<Rightarrow> Inl e
      | Inr _ \<Rightarrow>
          (case range_loop copy_T begin (snd (distance begin stream)) static_vector_default of
             (Inl e, _) \<Rightarrow> Inl e
           | (Inr _, s) \<Rightarrow> Inr s))"

text \<open>
  \<open>static_vector(std::initializer_list<T> list)\<close> delegates to the range constructor with
  \<open>std::begin(list)\<close> and \<open>std::end(list)\<close>, which are pointers into the list.
\<close>

definition static_vector_list ::
  "nat \<Rightarrow> ('a \<Rightarrow> error + 'a) \<Rightarrow> 'a list \<Rightarrow> error + 'a static_vector" where
  "static_vector_list N copy_T xs = static_vector_range N copy_T (Forward xs) []"

text \<open>
  The loop \<open>for (size_type i{0}; i < count; ++i) pb_internal(value)\<close> of the fill
  constructor, over the list of the values it copies.
\<close>

fun pb_loop ::
  "('a \<Rightarrow> error + 'a) \<Rightarrow> 'a list \<Rightarrow> 'a static_vector \<Rightarrow> (error + unit) \<times> 'a static_vector" where
  "pb_loop copy_T [] s = (Inr (), s)"
| "pb_loop copy_T (x # xs) s =
     (case pb_internal copy_T x s of
        (Inl e, s') \<Rightarrow> (Inl e, s')
      | (Inr _, s') \<Rightarrow> pb_loop copy_T xs s')"

text \<open>\<open>static_vector(size_type count, const T &value)\<close>.\<close>

definition static_vector_fill ::
  "nat \<Rightarrow> ('a \<Rightarrow> error + 'a) \<Rightarrow> nat \<Rightarrow> 'a \<Rightarrow> error + 'a static_vector" where
  "static_vector_fill N copy_T count v =
     (case validate_count N count of
        Inl e \<Rightarrow> Inl e
      | Inr _ \<Rightarrow>
          (case pb_loop copy_T (map (\<lambda>_. v) [0 ..< count]) static_vector_default of
             (Inl e, _) \<Rightarrow> Inl e
           | (Inr _, s) \<Rightarrow> Inr s))"

text \<open>
  The copy constructor: \<open>pb_internal(other[i])\<close> for \<open>i = 0, ..., other.curr_size - 1\<close>
  inside \<open>try\<close>; the handler runs \<open>clear_elements\<close> on the part built so far and rethrows.
  The result is the record of the slots destroyed by the handler and the outcome.
\<close>

fun copy_loop ::
  "('a \<Rightarrow> error + 'a) \<Rightarrow> 'a static_vector \<Rightarrow> nat list \<Rightarrow> 'a static_vector
     \<Rightarrow> (error + unit) \<times> 'a static_vector" where
  "copy_loop copy_T other [] s = (Inr (), s)"
| "copy_loop copy_T other (i # is) s =
     (case operator_index other i of
        Inl e \<Rightarrow> (Inl e, s)
      | Inr v \<Rightarrow>
          (case pb_internal copy_T v s of
             (Inl e, s') \<Rightarrow> (Inl e, s')
           | (Inr _, s') \<Rightarrow> copy_loop copy_T other is s'))"

definition static_vector_copy ::
  "('a \<Rightarrow> error + 'a) \<Rightarrow> 'a static_vector \<Rightarrow> 'a option list \<times> (error + 'a static_vector)" where
  "static_vector_copy copy_T other =
     (case copy_loop copy_T other [0 ..< curr_size other] static_vector_default of
        (Inr _, s) \<Rightarrow> ([], Inr s)
      | (Inl e, s) \<Rightarrow>
          (if e = Undefined_behaviour then ([], Inl e)
           else (fst (clear_elements s), Inl e)))"

text \<open>
  The move constructor: \<open>*this\<close> is default-constructed, then \<open>other.swap(*this)\<close>.
  The result is the pair (the new object, \<open>other\<close> afterwards).
\<close>

definition static_vector_move :: "'a static_vector \<Rightarrow> 'a static_vector \<times> 'a static_vector" where
  "static_vector_move other =
     (let oo = swap other static_vector_default in (snd oo, fst oo))"

subsection \<open>Assignment\<close>

text \<open>
  Copy assignment: \<open>static_vector tmp{other}; tmp.swap(*this);\<close> and \<open>tmp\<close> is destroyed
  at the end of the body. When the copy throws, the swap is not reached. The result is
  the record of destroyed slots, the outcome and \<open>*this\<close> afterwards. The copy is complete
  before \<open>*this\<close> is touched, so \<open>a = a\<close> is the call with \<open>other\<close> equal to \<open>this\<close>.
\<close>

definition operator_assign ::
  "('a \<Rightarrow> error + 'a) \<Rightarrow> 'a static_vector \<Rightarrow> 'a static_vector
     \<Rightarrow> 'a option list \<times> (error + unit) \<times> 'a static_vector" where
  "operator_assign copy_T this other =
     (case static_vector_copy copy_T other of
        (log, Inl e) \<Rightarrow> (log, Inl e, this)
      | (log, Inr tmp) \<Rightarrow>
          (let tt = swap tmp this
           in (log @ fst (clear_elements (fst tt)), Inr (), snd tt)))"

text \<open>
  Move assignment: \<open>static_vector tmp{std::move(other)}; tmp.swap(*this);\<close>. The result
  is the record of destroyed slots, \<open>*this\<close> afterwards and \<open>other\<close> afterwards.
\<close>

definition operator_assign_move ::
  "'a static_vector \<Rightarrow> 'a static_vector
     \<Rightarrow> 'a option list \<times> 'a static_vector \<times> 'a static_vector" where
  "operator_assign_move this other =
     (let mo = static_vector_move other;
          tt = swap (fst mo) this
      in (fst (clear_elements (fst tt)), snd tt, snd mo))"

subsection \<open>Comparison\<close>

text \<open>
  \<open>std::equal(first1, last1, first2)\<close> with the equality of \<open>T\<close>: it stops with \<open>false\<close> at
  the first pair that differs.
\<close>

fun equal_slots ::
  "('a \<Rightarrow> 'a \<Rightarrow> bool) \<Rightarrow> (nat \<Rightarrow> 'a option) \<Rightarrow> (nat \<Rightarrow> 'a option) \<Rightarrow> nat list \<Rightarrow> error + bool" where
  "equal_slots eq_T b1 b2 [] = Inr True"
| "equal_slots eq_T b1 b2 (i # is) =
     (case (b1 i, b2 i) of
        (Some x, Some y) \<Rightarrow> (if eq_T x y then equal_slots eq_T b1 b2 is else Inr False)
      | _ \<Rightarrow> Inl Undefined_behaviour)"

definition operator_eq ::
  "('a \<Rightarrow> 'a \<Rightarrow> bool) \<Rightarrow> 'a static_vector \<Rightarrow> 'a static_vector \<Rightarrow> error + bool" where
  "operator_eq eq_T lhs rhs =
     (if size_sv lhs = size_sv rhs
      then equal_slots eq_T (buffer lhs) (buffer rhs) [0 ..< curr_size lhs]
      else Inr False)"

definition operator_neq ::
  "('a \<Rightarrow> 'a \<Rightarrow> bool) \<Rightarrow> 'a static_vector \<Rightarrow> 'a static_vector \<Rightarrow> error + bool" where
  "operator_neq eq_T lhs rhs =
     (case operator_eq eq_T lhs rhs of Inl e \<Rightarrow> Inl e | Inr r \<Rightarrow> Inr (\<not> r))"

subsection \<open>Auxiliary definitions for the statements\<close>

text \<open>
  \<open>appended s xs\<close> is the state \<open>s\<close> with the elements \<open>xs\<close> constructed in the slots from
  \<open>curr_size s\<close> on: what a run of \<open>pb_internal\<close> over \<open>xs\<close> produces when no copy throws.
\<close>

definition appended :: "'a static_vector \<Rightarrow> 'a list \<Rightarrow> 'a static_vector" where
  "appended s xs =
     s\<lparr>buffer := (\<lambda>i. if curr_size s \<le> i \<and> i < curr_size s + length xs
                        then Some (xs ! (i - curr_size s)) else buffer s i),
       curr_size := curr_size s + length xs\<rparr>"

text \<open>
  The exchange as section 4.3 of the specification words it, for comparison with \<open>swap\<close>:
  the contents of the slots below the smaller of the two sizes are exchanged, then the
  sizes.
\<close>

definition swap_overlap_spec ::
  "'a static_vector \<Rightarrow> 'a static_vector \<Rightarrow> 'a static_vector \<times> 'a static_vector" where
  "swap_overlap_spec a b =
     (let bb = swap_ranges [0 ..< min (size_sv a) (size_sv b)] (buffer a, buffer b)
      in (a\<lparr>buffer := fst bb, curr_size := size_sv b\<rparr>,
          b\<lparr>buffer := snd bb, curr_size := size_sv a\<rparr>))"

section \<open>Properties\<close>

declare distance_loop.simps [simp del] range_loop.simps [simp del]

subsection \<open>Reading the live range\<close>

lemma read_slots_iff: "read_slots b is = Inr xs \<longleftrightarrow> map b is = map Some xs"
proof (induction "is" arbitrary: xs)
  case Nil
  show ?case by auto
next
  case (Cons i "is")
  show ?case
  proof (cases "b i")
    case None
    then show ?thesis by (cases xs) auto
  next
    case (Some x)
    show ?thesis
    proof (cases "read_slots b is")
      case (Inl e)
      with Some Cons show ?thesis by (cases xs) auto
    next
      case (Inr ys)
      with Some Cons [of ys] Cons show ?thesis by (cases xs) auto
    qed
  qed
qed

lemma traverse_iff: "traverse s = Inr xs \<longleftrightarrow> map (buffer s) [0 ..< curr_size s] = map Some xs"
  by (simp add: traverse_def read_slots_iff)

lemma traverse_length: "traverse s = Inr xs \<Longrightarrow> length xs = curr_size s"
  by (metis traverse_iff length_map length_upt diff_zero)

lemma traverse_nth: "traverse s = Inr xs \<Longrightarrow> i < curr_size s \<Longrightarrow> buffer s i = Some (xs ! i)"
proof -
  assume a: "traverse s = Inr xs" and i: "i < curr_size s"
  have m: "map (buffer s) [0 ..< curr_size s] = map Some xs" using a by (simp add: traverse_iff)
  have l: "length xs = curr_size s" using a by (rule traverse_length)
  have "map (buffer s) [0 ..< curr_size s] ! i = map Some xs ! i" using m by simp
  then show ?thesis using i l by simp
qed

subsection \<open>The loops in closed form\<close>

lemma fold_iter_swap:
  "distinct is \<Longrightarrow> fold iter_swap is (b1, b2) =
     ((\<lambda>i. if i \<in> set is then b2 i else b1 i), (\<lambda>i. if i \<in> set is then b1 i else b2 i))"
proof (induction "is" arbitrary: b1 b2)
  case Nil
  show ?case by simp
next
  case (Cons j js)
  have d: "distinct js" and nj: "j \<notin> set js" using Cons.prems by auto
  have "fold iter_swap (j # js) (b1, b2) = fold iter_swap js (b1(j := b2 j), b2(j := b1 j))"
    by (simp add: iter_swap_def)
  also have "\<dots> = ((\<lambda>i. if i \<in> set js then (b2(j := b1 j)) i else (b1(j := b2 j)) i),
                   (\<lambda>i. if i \<in> set js then (b1(j := b2 j)) i else (b2(j := b1 j)) i))"
    by (rule Cons.IH [OF d])
  also have "\<dots> = ((\<lambda>i. if i \<in> set (j # js) then b2 i else b1 i),
                   (\<lambda>i. if i \<in> set (j # js) then b1 i else b2 i))"
    using nj by (auto simp: fun_eq_iff)
  finally show ?case .
qed

lemma swap_ranges_upt:
  "swap_ranges [0 ..< n] (b1, b2) =
     ((\<lambda>i. if i < n then b2 i else b1 i), (\<lambda>i. if i < n then b1 i else b2 i))"
  by (simp add: swap_ranges_def fold_iter_swap)

lemma fold_destroy_at:
  "distinct is \<Longrightarrow> fold destroy_at is (b, log) =
     ((\<lambda>i. if i \<in> set is then None else b i), log @ map b is)"
proof (induction "is" arbitrary: b log)
  case Nil
  show ?case by simp
next
  case (Cons j js)
  have d: "distinct js" and nj: "j \<notin> set js" using Cons.prems by auto
  have "fold destroy_at (j # js) (b, log) = fold destroy_at js (b(j := None), log @ [b j])"
    by (simp add: destroy_at_def)
  also have "\<dots> = ((\<lambda>i. if i \<in> set js then None else (b(j := None)) i),
                   (log @ [b j]) @ map (b(j := None)) js)"
    by (rule Cons.IH [OF d])
  also have "\<dots> = ((\<lambda>i. if i \<in> set (j # js) then None else b i), log @ map b (j # js))"
    using nj by (auto simp: fun_eq_iff)
  finally show ?case .
qed

lemma clear_index_list: "map (\<lambda>i. n - 1 - i) [0 ..< n] = rev [0 ..< n]"
  by (rule nth_equalityI) (auto simp: rev_nth)

lemma appended_Nil: "appended s [] = s"
  by (cases s) (auto simp: appended_def fun_eq_iff)

lemma appended_Cons:
  "appended (s\<lparr>buffer := (buffer s)(curr_size s := Some x), curr_size := Suc (curr_size s)\<rparr>) xs
     = appended s (x # xs)"
  by (auto simp: appended_def fun_eq_iff nth_Cons')

lemma pb_loop_ok:
  "\<forall>x\<in>set xs. copy_T x = Inr x \<Longrightarrow> pb_loop copy_T xs s = (Inr (), appended s xs)"
proof (induction xs arbitrary: s)
  case Nil
  show ?case by (simp add: appended_Nil)
next
  case (Cons x xs)
  have x: "copy_T x = Inr x" and xs: "\<forall>y\<in>set xs. copy_T y = Inr y" using Cons.prems by auto
  show ?case
    by (simp add: pb_internal_def x Cons.IH [OF xs] appended_Cons)
qed

lemma pb_loop_append:
  "pb_loop copy_T (ys @ zs) s =
     (case pb_loop copy_T ys s of
        (Inl e, s') \<Rightarrow> (Inl e, s')
      | (Inr _, s') \<Rightarrow> pb_loop copy_T zs s')"
  by (induction ys arbitrary: s) (auto split: prod.splits sum.splits)

lemma pb_loop_fail:
  assumes "\<forall>y\<in>set ys. copy_T y = Inr y" and "copy_T x = Inl e"
  shows "pb_loop copy_T (ys @ x # zs) s = (Inl e, appended s ys)"
  using assms by (simp add: pb_loop_append pb_loop_ok pb_internal_def)

lemma copy_loop_pb_loop:
  "map (buffer other) is = map Some xs \<Longrightarrow> copy_loop copy_T other is s = pb_loop copy_T xs s"
proof (induction "is" arbitrary: xs s)
  case Nil
  then show ?case by simp
next
  case (Cons i "is")
  then obtain y ys where xs: "xs = y # ys" by (cases xs) auto
  with Cons.prems have i: "buffer other i = Some y" and r: "map (buffer other) is = map Some ys"
    by auto
  show ?case
    by (simp add: xs operator_index_def i Cons.IH [OF r] split: prod.splits sum.splits)
qed

lemma traverse_appended_default: "traverse (appended static_vector_default xs) = Inr xs"
  by (auto simp: traverse_iff appended_def static_vector_default_def intro!: nth_equalityI)

lemma curr_size_appended: "curr_size (appended s xs) = curr_size s + length xs"
  by (simp add: appended_def)

lemma clear_elements_eq:
  "clear_elements s =
     (map (buffer s) (rev [0 ..< curr_size s]),
      s\<lparr>buffer := (\<lambda>i. if i < curr_size s then None else buffer s i), curr_size := 0\<rparr>)"
proof -
  have idx: "map (\<lambda>i. curr_size s - 1 - i) [0 ..< curr_size s] = rev [0 ..< curr_size s]"
    by (rule clear_index_list)
  have f: "fold destroy_at (rev [0 ..< curr_size s]) (buffer s, []) =
             ((\<lambda>i. if i < curr_size s then None else buffer s i),
              map (buffer s) (rev [0 ..< curr_size s]))"
    by (simp add: fold_destroy_at)
  show ?thesis
    unfolding clear_elements_def idx f by simp
qed

lemma swap_eq:
  "swap this other =
     (this\<lparr>buffer := (\<lambda>i. if i < curr_size this then buffer other i else buffer this i),
            curr_size := curr_size other\<rparr>,
      other\<lparr>buffer := (\<lambda>i. if i < curr_size this then buffer this i else buffer other i),
             curr_size := curr_size this\<rparr>)"
  by (simp add: swap_def swap_ranges_upt Let_def)

subsection \<open>Construction from a sequence\<close>

lemma distance_loop_Forward:
  "distance_loop (Forward ys) stream n = (n + length ys, stream)"
proof (induction ys arbitrary: n)
  case Nil
  show ?case by (simp add: distance_loop.simps [of "Forward []"] is_end_def)
next
  case (Cons y ys)
  show ?case
    by (simp add: distance_loop.simps [of "Forward (y # ys)"] is_end_def incr_def Cons.IH)
qed

lemma distance_loop_Input_None: "distance_loop (Input None) stream n = (n, stream)"
  by (simp add: distance_loop.simps [of "Input None"] is_end_def)

lemma distance_loop_Input_Some:
  "distance_loop (Input (Some c)) stream n = (Suc (n + length stream), [])"
proof (induction stream arbitrary: c n)
  case Nil
  show ?case
    by (simp add: distance_loop.simps [of "Input (Some c)"] is_end_def incr_def
          distance_loop_Input_None)
next
  case (Cons z zs)
  show ?case
    by (simp add: distance_loop.simps [of "Input (Some c)"] is_end_def incr_def Cons.IH)
qed

lemma distance_Forward: "distance (Forward xs) stream = (length xs, stream)"
  by (simp add: distance_def distance_loop_Forward)

lemma distance_istream:
  "distance (fst (istream_begin xs)) (snd (istream_begin xs)) = (length xs, [])"
  by (cases xs)
     (simp_all add: distance_def istream_begin_def distance_loop_Input_None
        distance_loop_Input_Some)

lemma range_loop_Forward: "range_loop copy_T (Forward xs) stream s = pb_loop copy_T xs s"
proof (induction xs arbitrary: s)
  case Nil
  show ?case by (simp add: range_loop.simps [of _ "Forward []"] is_end_def)
next
  case (Cons x xs)
  show ?case
    by (simp add: range_loop.simps [of _ "Forward (x # xs)"] is_end_def deref_def incr_def
          Cons.IH split: prod.splits sum.splits)
qed

lemma range_loop_Input_drained:
  "range_loop copy_T (Input (Some x)) [] s = pb_loop copy_T [x] s"
  by (simp add: range_loop.simps [of _ "Input (Some x)"] range_loop.simps [of _ "Input None"]
        is_end_def deref_def incr_def split: prod.splits sum.splits)

lemma range_loop_Input_None: "range_loop copy_T (Input None) stream s = (Inr (), s)"
  by (simp add: range_loop.simps [of _ "Input None"] is_end_def)

lemma static_vector_range_ok:
  assumes "length xs \<le> N" and "\<forall>x\<in>set xs. copy_T x = Inr x"
  shows "static_vector_range N copy_T (Forward xs) stream = Inr (appended static_vector_default xs)"
  using assms
  by (simp add: static_vector_range_def distance_Forward validate_count_def range_loop_Forward
        pb_loop_ok)

lemma static_vector_range_too_long:
  assumes "N < length xs"
  shows "static_vector_range N copy_T (Forward xs) stream = Inl Bad_alloc"
    and "static_vector_range N copy_T (fst (istream_begin xs)) (snd (istream_begin xs)) = Inl Bad_alloc"
  using assms
  by (simp_all add: static_vector_range_def distance_Forward distance_istream validate_count_def)

lemma static_vector_range_istream:
  assumes "length xs \<le> N" and "\<forall>x\<in>set xs. copy_T x = Inr x"
  shows "static_vector_range N copy_T (fst (istream_begin xs)) (snd (istream_begin xs)) =
           Inr (appended static_vector_default (take 1 xs))"
proof (cases xs)
  case Nil
  then show ?thesis
    by (simp add: static_vector_range_def istream_begin_def distance_def
          distance_loop_Input_None validate_count_def range_loop_Input_None appended_Nil)
next
  case (Cons x r)
  have x: "\<forall>y\<in>set [x]. copy_T y = Inr y" using assms Cons by simp
  have l: "range_loop copy_T (Input (Some x)) [] static_vector_default =
      (Inr (), appended static_vector_default [x])"
    by (simp only: range_loop_Input_drained pb_loop_ok [OF x])
  show ?thesis
    using assms(1) Cons
    by (simp add: static_vector_range_def istream_begin_def distance_def
          distance_loop_Input_Some validate_count_def l)
qed

lemma buffer_appended_default:
  "buffer (appended static_vector_default xs) i = (if i < length xs then Some (xs ! i) else None)"
  by (simp add: appended_def static_vector_default_def)

lemma curr_size_appended_default: "curr_size (appended static_vector_default xs) = length xs"
  by (simp add: appended_def static_vector_default_def)

text \<open>
  Claim C3, for the sources the constructor reads correctly. For a source sequence \<open>xs\<close>
  longer than \<open>N\<close>, the constructor from a begin/end pair, over multi-pass iterators or
  over a single-pass stream, and the constructor from a literal list fail with \<open>Bad_alloc\<close>
  (the header's capacity-exceeded condition for a requested count), whatever the copy
  constructor of the element type does: the check comes before the first copy, and a
  failed constructor leaves no object. For a source of at most \<open>N\<close> elements whose copies
  succeed, given by multi-pass iterators or as a literal list, the constructor succeeds,
  the size is the length of the source, and walking the container from \<open>begin()\<close> to
  \<open>end()\<close> yields exactly \<open>xs\<close>, in order.
\<close>

theorem range_constructor_checks_then_copies:
  "(N < length xs \<longrightarrow>
      static_vector_range N copy_T (Forward xs) stream = Inl Bad_alloc \<and>
      static_vector_range N copy_T (fst (istream_begin xs)) (snd (istream_begin xs))
        = Inl Bad_alloc \<and>
      static_vector_list N copy_T xs = Inl Bad_alloc) \<and>
   (length xs \<le> N \<and> (\<forall>x\<in>set xs. copy_T x = Inr x) \<longrightarrow>
      (\<exists>s. static_vector_range N copy_T (Forward xs) stream = Inr s \<and>
           static_vector_list N copy_T xs = Inr s \<and>
           size_sv s = length xs \<and> traverse s = Inr xs))"
proof (intro conjI impI)
  assume l: "N < length xs"
  show "static_vector_range N copy_T (Forward xs) stream = Inl Bad_alloc"
    by (rule static_vector_range_too_long(1) [OF l])
  show "static_vector_range N copy_T (fst (istream_begin xs)) (snd (istream_begin xs))
        = Inl Bad_alloc"
    by (rule static_vector_range_too_long(2) [OF l])
  show "static_vector_list N copy_T xs = Inl Bad_alloc"
    unfolding static_vector_list_def by (rule static_vector_range_too_long(1) [OF l])
next
  assume a: "length xs \<le> N \<and> (\<forall>x\<in>set xs. copy_T x = Inr x)"
  then have r: "\<And>st. static_vector_range N copy_T (Forward xs) st =
      Inr (appended static_vector_default xs)"
    by (simp add: static_vector_range_ok)
  show "\<exists>s. static_vector_range N copy_T (Forward xs) stream = Inr s \<and>
           static_vector_list N copy_T xs = Inr s \<and>
           size_sv s = length xs \<and> traverse s = Inr xs"
    by (simp add: r static_vector_list_def size_sv_def curr_size_appended_default
          traverse_appended_default)
qed

theorem range_constructor_checks_then_copies_witness:
  "static_vector_range 2 Inr (Forward [1, 2, 3 :: int]) [] = Inl Bad_alloc \<and>
   static_vector_range 2 Inr (fst (istream_begin [1, 2, 3 :: int]))
     (snd (istream_begin [1, 2, 3 :: int])) = Inl Bad_alloc \<and>
   static_vector_list 2 (\<lambda>x. Inl Element_exception) [1, 2, 3 :: int] = Inl Bad_alloc \<and>
   (\<exists>s. static_vector_range 4 Inr (Forward [10, 20, 30 :: int]) [] = Inr s \<and>
        static_vector_list 4 Inr [10, 20, 30 :: int] = Inr s \<and>
        size_sv s = 3 \<and> traverse s = Inr [10, 20, 30])"
  using range_constructor_checks_then_copies [of 2 "[1, 2, 3 :: int]" Inr "[]"]
    range_constructor_checks_then_copies [of 2 "[1, 2, 3 :: int]" "\<lambda>x. Inl Element_exception" "[]"]
    range_constructor_checks_then_copies [of 4 "[10, 20, 30 :: int]" Inr "[]"]
  by (auto simp: numeral_3_eq_3)

text \<open>
  Against the wording of claim C3 for every source sequence: over a single-pass stream
  holding 1, 2, 3, with capacity 4, \<open>std::distance\<close> drains the stream before the loop
  starts, the loop copies the one element that \<open>begin\<close> still holds, and the container
  built holds 1 alone.
\<close>

theorem range_constructor_single_pass_source:
  "static_vector_range 4 Inr (fst (istream_begin [1, 2, 3 :: int]))
     (snd (istream_begin [1, 2, 3 :: int])) = Inr (appended static_vector_default [1]) \<and>
   traverse (appended static_vector_default [1 :: int]) = Inr [1] \<and>
   traverse (appended static_vector_default [1 :: int]) \<noteq> Inr [1, 2, 3]"
  by (simp add: static_vector_range_istream traverse_appended_default)

subsection \<open>Validated access\<close>

lemma list_10_20_30:
  "static_vector_list 4 Inr [10, 20, 30 :: int] =
     Inr (appended static_vector_default [10, 20, 30])"
  by (simp add: static_vector_list_def static_vector_range_ok)

text \<open>
  Claim C4. \<open>at(i)\<close> fails with \<open>Out_of_range\<close> exactly when \<open>i \<ge> size()\<close>; for
  \<open>i < size()\<close> on a container whose live sequence is \<open>xs\<close> it returns the element at
  position \<open>i\<close>. For the capacity-4 container built from the list \<open>{10, 20, 30}\<close>,
  \<open>at(5)\<close> fails with \<open>Out_of_range\<close> and \<open>at(1)\<close> returns 20.
\<close>

theorem at_checks_the_index:
  "(at_sv s i = Inl Out_of_range \<longleftrightarrow> size_sv s \<le> i) \<and>
   (i < size_sv s \<and> traverse s = Inr xs \<longrightarrow> at_sv s i = Inr (xs ! i)) \<and>
   (\<exists>c. static_vector_list 4 Inr [10, 20, 30 :: int] = Inr c \<and>
        at_sv c 5 = Inl Out_of_range \<and> at_sv c 1 = Inr 20)"
proof (intro conjI impI)
  show "at_sv s i = Inl Out_of_range \<longleftrightarrow> size_sv s \<le> i"
    by (simp add: at_sv_def validate_index_def operator_index_def size_sv_def
          split: option.splits)
next
  assume a: "i < size_sv s \<and> traverse s = Inr xs"
  then have "buffer s i = Some (xs ! i)"
    by (simp add: traverse_nth size_sv_def)
  with a show "at_sv s i = Inr (xs ! i)"
    by (simp add: at_sv_def validate_index_def operator_index_def size_sv_def)
next
  show "\<exists>c. static_vector_list 4 Inr [10, 20, 30 :: int] = Inr c \<and>
        at_sv c 5 = Inl Out_of_range \<and> at_sv c 1 = Inr 20"
    by (simp add: list_10_20_30 at_sv_def validate_index_def operator_index_def
          buffer_appended_default curr_size_appended_default)
qed

theorem at_checks_the_index_witness:
  "(1::nat) < size_sv (appended static_vector_default [10, 20, 30 :: int]) \<and>
   traverse (appended static_vector_default [10, 20, 30 :: int]) = Inr [10, 20, 30] \<and>
   at_sv (appended static_vector_default [10, 20, 30 :: int]) 1 = Inr 20 \<and>
   at_sv (appended static_vector_default [10, 20, 30 :: int]) 3 = Inl Out_of_range"
  using at_checks_the_index [of "appended static_vector_default [10, 20, 30 :: int]" 1 "[10, 20, 30]"]
    at_checks_the_index [of "appended static_vector_default [10, 20, 30 :: int]" 3 "[10, 20, 30]"]
  by (simp add: size_sv_def curr_size_appended_default traverse_appended_default)

subsection \<open>Move construction\<close>

lemma read_slots_map:
  "map b is = map b' is \<Longrightarrow> read_slots b is = read_slots b' is"
  by (induction "is") (auto split: option.splits sum.splits)

text \<open>
  Claim C6. Move construction has no failing outcome; afterwards the source is empty
  (\<open>size() == 0\<close>) and the new container has the size the source had and holds, slot by
  slot, what the source held below that size, so that walking it yields what walking the
  source yielded before the move.
\<close>

theorem move_constructor_transfers:
  "size_sv (snd (static_vector_move s)) = 0 \<and>
   empty_sv (snd (static_vector_move s)) \<and>
   size_sv (fst (static_vector_move s)) = size_sv s \<and>
   map (buffer (fst (static_vector_move s))) [0 ..< size_sv s] = map (buffer s) [0 ..< size_sv s] \<and>
   traverse (fst (static_vector_move s)) = traverse s"
proof -
  let ?d = "fst (static_vector_move s)" and ?o = "snd (static_vector_move s)"
  have o: "curr_size ?o = 0"
    by (simp add: static_vector_move_def swap_eq static_vector_default_def)
  have d: "curr_size ?d = curr_size s"
    by (simp add: static_vector_move_def swap_eq)
  have m: "map (buffer ?d) [0 ..< curr_size s] = map (buffer s) [0 ..< curr_size s]"
    by (simp add: static_vector_move_def swap_eq)
  have t: "traverse ?d = traverse s"
    unfolding traverse_def d by (rule read_slots_map [OF m])
  show ?thesis
    using o d m t by (simp add: size_sv_def empty_sv_def)
qed

subsection \<open>Swap\<close>

text \<open>
  Claim C7, as the code has it. \<open>swap(a, b)\<close> exchanges the contents of the slots of \<open>a\<close>
  and \<open>b\<close> at every index below \<open>a.size()\<close>, the size of its first argument, whether or not
  the slot of \<open>b\<close> holds a live element, leaves the other slots as they are, and exchanges
  the two sizes.
\<close>

theorem swap_exchanges_range_of_lhs:
  "swap_friend a b =
     (a\<lparr>buffer := (\<lambda>i. if i < size_sv a then buffer b i else buffer a i),
        curr_size := size_sv b\<rparr>,
      b\<lparr>buffer := (\<lambda>i. if i < size_sv a then buffer a i else buffer b i),
        curr_size := size_sv a\<rparr>)"
  by (simp add: swap_friend_def swap_eq size_sv_def)

text \<open>
  Against the wording of claim C7: the exchange is not confined to the indices below \<open>min(a.size(), b.size())\<close>: swapping a
  container holding one element with an empty one puts the element into slot 0 of the
  second container, where an exchange over the overlap would leave raw storage.
\<close>

theorem swap_not_overlap_only:
  "buffer (snd (swap_friend (appended static_vector_default [1 :: int]) static_vector_default)) 0
     = Some 1 \<and>
   buffer (snd (swap_overlap_spec (appended static_vector_default [1 :: int])
                  static_vector_default)) 0 = None \<and>
   swap_friend (appended static_vector_default [1 :: int]) static_vector_default
     \<noteq> swap_overlap_spec (appended static_vector_default [1 :: int]) static_vector_default"
proof -
  let ?a = "appended static_vector_default [1 :: int]"
  let ?b = "static_vector_default :: int static_vector"
  have 1: "buffer (snd (swap_friend ?a ?b)) 0 = Some 1"
    by (simp add: swap_friend_def swap_eq curr_size_appended_default buffer_appended_default)
  have b0: "curr_size ?b = 0" and b1: "buffer ?b 0 = None"
    by (simp_all add: static_vector_default_def)
  have 2: "buffer (snd (swap_overlap_spec ?a ?b)) 0 = None"
    by (simp add: swap_overlap_spec_def swap_ranges_def size_sv_def b0 b1)
  from 1 2 have "swap_friend ?a ?b \<noteq> swap_overlap_spec ?a ?b" by auto
  with 1 2 show ?thesis by blast
qed

subsection \<open>Appending\<close>

text \<open>
  Claim C10. \<open>emplace_back(v)\<close> with the single argument \<open>v\<close>, an lvalue of type \<open>T\<close>,
  constructs the element with \<open>T\<close>'s copy constructor, the constructor that
  \<open>push_back(const T&)\<close> uses; from the same state the two calls give the same outcome and
  the same container.
\<close>

theorem emplace_back_of_value_is_push_back:
  "emplace_back N copy_T v s = push_back N copy_T v s"
  by (simp add: emplace_back_def push_back_def eb_internal_def pb_internal_def
        split: sum.splits)

lemma push_back_below_capacity:
  assumes "curr_size s < N" and "copy_T v = Inr x"
  shows "push_back N copy_T v s =
           (Inr (), s\<lparr>buffer := (buffer s)(curr_size s := Some x),
                      curr_size := curr_size s + 1\<rparr>)"
  using assms by (simp add: push_back_def validate_curr_size_def pb_internal_def)

lemma push_back_above_capacity:
  assumes "N < curr_size s"
  shows "push_back N copy_T v s = (Inl Length_error, s)"
  using assms by (simp add: push_back_def validate_curr_size_def)

text \<open>
  Claim C2 asks that an append to a container with \<open>size() == N\<close> fails with the
  capacity-exceeded condition and leaves the size unchanged. \<open>validate_curr_size\<close> throws
  only for \<open>curr_size > N\<close>: on the full capacity-3 container built from \<open>{1, 2, 3}\<close> the
  check passes, and \<open>push_back\<close> by copy, \<open>push_back\<close> by move and \<open>emplace_back\<close> each
  return normally with size 4, the new element constructed in slot 3, behind the storage.
\<close>

theorem push_back_on_full_does_not_throw:
  "\<exists>s s1 s2 s3.
     static_vector_list 3 Inr [1, 2, 3 :: int] = Inr s \<and> size_sv s = capacity 3 s \<and>
     validate_curr_size 3 s = Inr () \<and>
     push_back 3 Inr 4 s = (Inr (), s1) \<and> size_sv s1 = 4 \<and> buffer s1 3 = Some 4 \<and>
     push_back_move 3 Inr 4 s = (Inr (), s2) \<and> size_sv s2 = 4 \<and>
     emplace_back 3 Inr 4 s = (Inr (), s3) \<and> size_sv s3 = 4"
  by (simp add: static_vector_list_def static_vector_range_ok size_sv_def capacity_def
        validate_curr_size_def push_back_def push_back_move_def emplace_back_def
        pb_internal_def mb_internal_def eb_internal_def curr_size_appended_default)

text \<open>
  Claim C1 asks for \<open>size() \<le> capacity()\<close> after every valid operation. For every \<open>N\<close>, the
  constructor from a list of \<open>N\<close> values gives a full container, and one \<open>push_back\<close> on it
  returns normally with \<open>size() = N + 1\<close>, above \<open>capacity()\<close>.
\<close>

theorem size_exceeds_capacity_after_push_back:
  "\<exists>s0 s1.
     static_vector_list N Inr (replicate N v) = Inr s0 \<and> size_sv s0 = capacity N s0 \<and>
     push_back N Inr v s0 = (Inr (), s1) \<and> size_sv s1 = N + 1 \<and>
     \<not> size_sv s1 \<le> capacity N s1"
  by (simp add: static_vector_list_def static_vector_range_ok size_sv_def capacity_def
        validate_curr_size_def push_back_def pb_internal_def curr_size_appended_default)

subsection \<open>Equality\<close>

lemma equal_slots_live:
  "map b1 is = map Some xs \<Longrightarrow> map b2 is = map Some ys \<Longrightarrow>
     equal_slots eq_T b1 b2 is = Inr (list_all2 eq_T xs ys)"
proof (induction "is" arbitrary: xs ys)
  case Nil
  then show ?case by simp
next
  case (Cons i "is")
  from Cons.prems(1) obtain x xs' where xs: "xs = x # xs'" by (cases xs) auto
  from Cons.prems(2) obtain y ys' where ys: "ys = y # ys'" by (cases ys) auto
  from Cons.prems xs ys
  have 1: "b1 i = Some x" "map b1 is = map Some xs'" and 2: "b2 i = Some y" "map b2 is = map Some ys'"
    by auto
  have ih: "equal_slots eq_T b1 b2 is = Inr (list_all2 eq_T xs' ys')"
    by (rule Cons.IH [OF 1(2) 2(2)])
  show ?case by (simp add: xs ys 1(1) 2(1) ih)
qed

lemma operator_eq_live:
  assumes a: "traverse a = Inr xs" and b: "traverse b = Inr ys"
  shows "operator_eq eq_T a b = Inr (list_all2 eq_T xs ys)"
proof (cases "curr_size a = curr_size b")
  case True
  have ma: "map (buffer a) [0 ..< curr_size a] = map Some xs"
    using a by (simp add: traverse_iff)
  have mb: "map (buffer b) [0 ..< curr_size a] = map Some ys"
    using b True by (simp add: traverse_iff)
  have "equal_slots eq_T (buffer a) (buffer b) [0 ..< curr_size a] = Inr (list_all2 eq_T xs ys)"
    by (rule equal_slots_live [OF ma mb])
  then show ?thesis
    using True by (simp add: operator_eq_def size_sv_def)
next
  case False
  then have "length xs \<noteq> length ys"
    using traverse_length [OF a] traverse_length [OF b] by simp
  then have "\<not> list_all2 eq_T xs ys"
    by (auto dest: list_all2_lengthD)
  then show ?thesis
    using False by (simp add: operator_eq_def size_sv_def)
qed

text \<open>
  Claim C8. For containers \<open>a\<close> and \<open>b\<close> with live sequences \<open>xs\<close> and \<open>ys\<close>, \<open>a == b\<close> is
  true exactly when the sizes agree and the elements agree at every position below the
  size under the equality of the element type. Hence \<open>==\<close> is reflexive, symmetric and
  transitive on containers when the equality of the element type is, and two containers
  built from the same literal list are equal.
\<close>

theorem equality_is_positionwise:
  "(traverse a = Inr xs \<and> traverse b = Inr ys \<longrightarrow>
      operator_eq eq_T a b =
        Inr (size_sv a = size_sv b \<and> (\<forall>i<size_sv a. eq_T (xs ! i) (ys ! i)))) \<and>
   (reflp eq_T \<and> traverse a = Inr xs \<longrightarrow> operator_eq eq_T a a = Inr True) \<and>
   (symp eq_T \<and> traverse a = Inr xs \<and> traverse b = Inr ys \<longrightarrow>
      operator_eq eq_T b a = operator_eq eq_T a b) \<and>
   (transp eq_T \<and> traverse a = Inr xs \<and> traverse b = Inr ys \<and> traverse c = Inr zs \<and>
    operator_eq eq_T a b = Inr True \<and> operator_eq eq_T b c = Inr True \<longrightarrow>
      operator_eq eq_T a c = Inr True) \<and>
   (reflp eq_T \<and> length ls \<le> N \<and> (\<forall>x\<in>set ls. copy_T x = Inr x) \<longrightarrow>
      (\<exists>p q. static_vector_list N copy_T ls = Inr p \<and> static_vector_list N copy_T ls = Inr q \<and>
             operator_eq eq_T p q = Inr True))"
proof (intro conjI impI)
  assume h: "traverse a = Inr xs \<and> traverse b = Inr ys"
  then have la: "length xs = size_sv a" and lb: "length ys = size_sv b"
    by (simp_all add: traverse_length size_sv_def)
  have "operator_eq eq_T a b = Inr (list_all2 eq_T xs ys)"
    using h by (simp add: operator_eq_live)
  also have "list_all2 eq_T xs ys \<longleftrightarrow>
      size_sv a = size_sv b \<and> (\<forall>i<size_sv a. eq_T (xs ! i) (ys ! i))"
    using la lb by (simp add: list_all2_conv_all_nth)
  finally show "operator_eq eq_T a b =
      Inr (size_sv a = size_sv b \<and> (\<forall>i<size_sv a. eq_T (xs ! i) (ys ! i)))" .
next
  assume h: "reflp eq_T \<and> traverse a = Inr xs"
  then have "list_all2 eq_T xs xs"
    by (simp add: list_all2_conv_all_nth reflp_def)
  with h show "operator_eq eq_T a a = Inr True"
    by (simp add: operator_eq_live)
next
  assume h: "symp eq_T \<and> traverse a = Inr xs \<and> traverse b = Inr ys"
  then have "list_all2 eq_T ys xs \<longleftrightarrow> list_all2 eq_T xs ys"
    by (auto simp: list_all2_conv_all_nth symp_def)
  with h show "operator_eq eq_T b a = operator_eq eq_T a b"
    by (simp add: operator_eq_live)
next
  assume h: "transp eq_T \<and> traverse a = Inr xs \<and> traverse b = Inr ys \<and> traverse c = Inr zs \<and>
    operator_eq eq_T a b = Inr True \<and> operator_eq eq_T b c = Inr True"
  then have ta: "traverse a = Inr xs" and tb: "traverse b = Inr ys" and tc: "traverse c = Inr zs"
    by simp_all
  have 1: "list_all2 eq_T xs ys"
    using h operator_eq_live [OF ta tb, of eq_T] by simp
  have 2: "list_all2 eq_T ys zs"
    using h operator_eq_live [OF tb tc, of eq_T] by simp
  have t: "\<And>x y z. eq_T x y \<Longrightarrow> eq_T y z \<Longrightarrow> eq_T x z"
    using h by (auto dest: transpD)
  have "list_all2 eq_T xs zs"
    by (rule list_all2_trans [OF t 1 2])
  with h show "operator_eq eq_T a c = Inr True"
    by (simp add: operator_eq_live)
next
  assume h: "reflp eq_T \<and> length ls \<le> N \<and> (\<forall>x\<in>set ls. copy_T x = Inr x)"
  then have r: "static_vector_list N copy_T ls = Inr (appended static_vector_default ls)"
    by (simp add: static_vector_list_def static_vector_range_ok)
  have "list_all2 eq_T ls ls"
    using h by (simp add: list_all2_conv_all_nth reflp_def)
  then have "operator_eq eq_T (appended static_vector_default ls)
      (appended static_vector_default ls) = Inr True"
    by (simp add: operator_eq_live [OF traverse_appended_default traverse_appended_default])
  with r show "\<exists>p q. static_vector_list N copy_T ls = Inr p \<and>
      static_vector_list N copy_T ls = Inr q \<and> operator_eq eq_T p q = Inr True"
    by simp
qed

theorem equality_is_positionwise_witness:
  "reflp ((=) :: int \<Rightarrow> int \<Rightarrow> bool) \<and> symp ((=) :: int \<Rightarrow> int \<Rightarrow> bool) \<and>
   transp ((=) :: int \<Rightarrow> int \<Rightarrow> bool) \<and>
   traverse (appended static_vector_default [1, 2 :: int]) = Inr [1, 2] \<and>
   traverse (appended static_vector_default [1, 3 :: int]) = Inr [1, 3] \<and>
   length [1, 2 :: int] \<le> 2 \<and> list_all (\<lambda>x. (Inr x :: error + int) = Inr x) [1, 2 :: int] \<and>
   operator_eq (=) (appended static_vector_default [1, 2 :: int])
     (appended static_vector_default [1, 2 :: int]) = Inr True \<and>
   operator_eq (=) (appended static_vector_default [1, 2 :: int])
     (appended static_vector_default [1, 3 :: int]) = Inr False \<and>
   operator_eq (=) (appended static_vector_default [1, 3 :: int])
     (appended static_vector_default [1, 2 :: int]) = Inr False \<and>
   (\<exists>p q. static_vector_list 2 Inr [1, 2 :: int] = Inr p \<and>
          static_vector_list 2 Inr [1, 2 :: int] = Inr q \<and> operator_eq (=) p q = Inr True)"
  using equality_is_positionwise
    [of "appended static_vector_default [1, 2 :: int]" "[1, 2]"
        "appended static_vector_default [1, 2 :: int]" "[1, 2]" "(=)"
        "appended static_vector_default [1, 2 :: int]" "[1, 2]" "[1, 2]" 2 Inr]
    equality_is_positionwise
    [of "appended static_vector_default [1, 2 :: int]" "[1, 2]"
        "appended static_vector_default [1, 3 :: int]" "[1, 3]" "(=)"
        "appended static_vector_default [1, 2 :: int]" "[1, 2]" "[1, 2]" 2 Inr]
  by (simp add: traverse_appended_default size_sv_def curr_size_appended_default
        All_less_Suc numeral_2_eq_2)

subsection \<open>Copy construction and copy assignment\<close>

lemma static_vector_copy_ok:
  assumes t: "traverse b = Inr xs" and c: "\<forall>x\<in>set xs. copy_T x = Inr x"
  shows "static_vector_copy copy_T b = ([], Inr (appended static_vector_default xs))"
proof -
  have m: "map (buffer b) [0 ..< curr_size b] = map Some xs"
    using t by (simp add: traverse_iff)
  have "copy_loop copy_T b [0 ..< curr_size b] static_vector_default =
          pb_loop copy_T xs static_vector_default"
    by (rule copy_loop_pb_loop [OF m])
  also have "\<dots> = (Inr (), appended static_vector_default xs)"
    by (rule pb_loop_ok [OF c])
  finally show ?thesis
    by (simp add: static_vector_copy_def)
qed

lemma static_vector_copy_fail:
  assumes t: "traverse b = Inr (ys @ x # zs)" and c: "\<forall>y\<in>set ys. copy_T y = Inr y"
    and x: "copy_T x = Inl e" and e: "e \<noteq> Undefined_behaviour"
  shows "static_vector_copy copy_T b = (rev (map Some ys), Inl e)"
proof -
  have m: "map (buffer b) [0 ..< curr_size b] = map Some (ys @ x # zs)"
    using t by (simp add: traverse_iff)
  have "copy_loop copy_T b [0 ..< curr_size b] static_vector_default =
          pb_loop copy_T (ys @ x # zs) static_vector_default"
    by (rule copy_loop_pb_loop [OF m])
  also have "\<dots> = (Inl e, appended static_vector_default ys)"
    by (rule pb_loop_fail [OF c x])
  finally have l: "copy_loop copy_T b [0 ..< curr_size b] static_vector_default =
      (Inl e, appended static_vector_default ys)" .
  have "map (buffer (appended static_vector_default ys)) [0 ..< length ys] = map Some ys"
    by (auto simp: buffer_appended_default intro!: nth_equalityI)
  then have "map (buffer (appended static_vector_default ys)) (rev [0 ..< length ys]) =
      rev (map Some ys)"
    by (simp only: rev_map [symmetric])
  then have d: "fst (clear_elements (appended static_vector_default ys)) = rev (map Some ys)"
    by (simp only: clear_elements_eq curr_size_appended_default fst_conv)
  show ?thesis
    using e by (simp add: static_vector_copy_def l d)
qed

text \<open>
  Claim C5. Let the source \<open>b\<close> hold \<open>ys @ x # zs\<close>, where the copies of \<open>ys\<close> succeed and the
  copy of \<open>x\<close> throws \<open>e\<close>. Copy construction from \<open>b\<close> then destroys the copies already
  made, last constructed first, and fails with \<open>e\<close>. Copy assignment \<open>a = b\<close> fails with
  \<open>e\<close> after the same unwinding and leaves \<open>a\<close> as it was. The source is a \<open>const\<close>
  reference in both members: they read it and have no effect on it.
\<close>

theorem failed_copy_is_unwound:
  "traverse b = Inr (ys @ x # zs) \<and> (\<forall>y\<in>set ys. copy_T y = Inr y) \<and>
   copy_T x = Inl e \<and> e \<noteq> Undefined_behaviour \<longrightarrow>
     static_vector_copy copy_T b = (rev (map Some ys), Inl e) \<and>
     operator_assign copy_T a b = (rev (map Some ys), Inl e, a)"
proof
  assume h: "traverse b = Inr (ys @ x # zs) \<and> (\<forall>y\<in>set ys. copy_T y = Inr y) \<and>
   copy_T x = Inl e \<and> e \<noteq> Undefined_behaviour"
  then have c: "static_vector_copy copy_T b = (rev (map Some ys), Inl e)"
    by (simp add: static_vector_copy_fail)
  then show "static_vector_copy copy_T b = (rev (map Some ys), Inl e) \<and>
     operator_assign copy_T a b = (rev (map Some ys), Inl e, a)"
    by (simp add: operator_assign_def)
qed

theorem failed_copy_is_unwound_witness:
  "traverse (appended static_vector_default [1, 2, 3 :: int]) = Inr ([1, 2] @ 3 # []) \<and>
   list_all (\<lambda>y. (if y = 3 then Inl Element_exception else Inr y) = Inr y) [1, 2 :: int] \<and>
   Element_exception \<noteq> Undefined_behaviour \<and>
   static_vector_copy (\<lambda>y. if y = 3 then Inl Element_exception else Inr y)
     (appended static_vector_default [1, 2, 3 :: int]) = ([Some 2, Some 1], Inl Element_exception) \<and>
   operator_assign (\<lambda>y. if y = 3 then Inl Element_exception else Inr y)
     (appended static_vector_default [7]) (appended static_vector_default [1, 2, 3 :: int]) =
       ([Some 2, Some 1], Inl Element_exception, appended static_vector_default [7])"
  using failed_copy_is_unwound
    [of "appended static_vector_default [1, 2, 3 :: int]" "[1, 2]" 3 "[]"
        "\<lambda>y. if y = 3 then Inl Element_exception else Inr y" Element_exception
        "appended static_vector_default [7]"]
  by (simp add: traverse_appended_default)

text \<open>
  Claim C9. For a container \<open>a\<close> with live sequence \<open>xs\<close> whose elements can be copied,
  the self-assignment \<open>a = a\<close> returns normally and leaves \<open>a\<close> as it was: the same size and
  the same sequence of elements.
\<close>

theorem self_assignment_keeps_contents:
  "traverse a = Inr xs \<and> (\<forall>x\<in>set xs. copy_T x = Inr x) \<longrightarrow>
     fst (snd (operator_assign copy_T a a)) = Inr () \<and>
     snd (snd (operator_assign copy_T a a)) = a \<and>
     size_sv (snd (snd (operator_assign copy_T a a))) = size_sv a \<and>
     traverse (snd (snd (operator_assign copy_T a a))) = Inr xs"
proof
  assume h: "traverse a = Inr xs \<and> (\<forall>x\<in>set xs. copy_T x = Inr x)"
  then have t: "traverse a = Inr xs" by simp
  have c: "static_vector_copy copy_T a = ([], Inr (appended static_vector_default xs))"
    using h by (simp add: static_vector_copy_ok)
  have n: "length xs = curr_size a" by (rule traverse_length [OF t])
  have b: "(\<lambda>i. if i < curr_size a then buffer (appended static_vector_default xs) i
                 else buffer a i) = buffer a"
    using n by (auto simp: fun_eq_iff buffer_appended_default traverse_nth [OF t])
  have s: "snd (swap (appended static_vector_default xs) a) = a"
    by (simp add: swap_eq curr_size_appended_default n b)
  have r: "snd (snd (operator_assign copy_T a a)) = a"
    and o: "fst (snd (operator_assign copy_T a a)) = Inr ()"
    by (simp_all add: operator_assign_def c s Let_def)
  show "fst (snd (operator_assign copy_T a a)) = Inr () \<and>
     snd (snd (operator_assign copy_T a a)) = a \<and>
     size_sv (snd (snd (operator_assign copy_T a a))) = size_sv a \<and>
     traverse (snd (snd (operator_assign copy_T a a))) = Inr xs"
    by (simp add: r o t)
qed

theorem self_assignment_keeps_contents_witness:
  "traverse (appended static_vector_default [1, 2 :: int]) = Inr [1, 2] \<and>
   list_all (\<lambda>x. (Inr x :: error + int) = Inr x) [1, 2 :: int] \<and>
   fst (snd (operator_assign Inr (appended static_vector_default [1, 2 :: int])
               (appended static_vector_default [1, 2 :: int]))) = Inr () \<and>
   traverse (snd (snd (operator_assign Inr (appended static_vector_default [1, 2 :: int])
               (appended static_vector_default [1, 2 :: int])))) = Inr [1, 2]"
  using self_assignment_keeps_contents [of "appended static_vector_default [1, 2 :: int]" "[1, 2]" Inr]
  by (simp add: traverse_appended_default)

end
